theory Spec2Isabelle
  imports Complex_Main
begin

section \<open>Values and errors of the Python program\<close>

text \<open>
  The program \<^verbatim>\<open>futile.py\<close> approximates a resistance by standard E12 resistors
  combined in parallel. Its numbers are Python floats, and every arithmetic operation on
  them rounds its result. The embedding makes the rounding a parameter \<open>rnd\<close> of every
  function that computes with floats: the function applies \<open>rnd\<close> wherever the program
  produces a float (a literal, a conversion from an integer, a sum, a product, a
  quotient, a logarithm). Two instances are used:
  \<^item> \<open>exact\<close>, the identity: arithmetic on the reals, without rounding. The statements
    that hold for every input are proved for this instance.
  \<^item> \<open>binary64\<close>, rounding to the nearest double, ties to even: the arithmetic of
    Python. Runs on concrete inputs are evaluated in this instance.
  Overflow, subnormal numbers, infinities and NaN are outside the model, and
  \<^verbatim>\<open>math.log10\<close> is taken to be the rounded real logarithm.

  Exceptions are values: a function that can raise returns \<open>error + 'a\<close>, with
  \<open>Inl\<close> for the exception.
\<close>

datatype error =
    ValueError string
  | ZeroDivisionError
  | AttributeError string
  | IndexError

text \<open>Class \<^verbatim>\<open>DecimalFloat\<close>: the attributes \<^verbatim>\<open>_mantissa\<close> and \<^verbatim>\<open>_exponent\<close>.\<close>

record DecimalFloat =
  mantissa :: real
  exponent :: int

text \<open>
  Class \<^verbatim>\<open>Resistor\<close>: the attribute \<^verbatim>\<open>_value\<close>. The constructor assigns it only
  inside its \<^verbatim>\<open>for\<close> loop, so an object whose loop found no mantissa has no such
  attribute: that is \<open>None\<close> here.
\<close>

record Resistor =
  value_attr :: "DecimalFloat option"

text \<open>The dynamically typed operands that reach the arithmetic of the program.\<close>

datatype pyval =
    PInt int
  | PFloat real
  | PDecimalFloat DecimalFloat
  | PResistor Resistor

definition and_then :: "error + 'a \<Rightarrow> ('a \<Rightarrow> error + 'b) \<Rightarrow> error + 'b" where
  "and_then m f = (case m of Inl e \<Rightarrow> Inl e | Inr x \<Rightarrow> f x)"

subsection \<open>The two arithmetics\<close>

abbreviation (input) exact :: "real \<Rightarrow> real" where
  "exact \<equiv> (\<lambda>x. x)"

text \<open>The integer nearest to \<open>q\<close>, the even one of the two when \<open>q\<close> lies half way.\<close>

definition round_half_even :: "real \<Rightarrow> int" where
  "round_half_even q =
     (if q - of_int \<lfloor>q\<rfloor> < 1 / 2 then \<lfloor>q\<rfloor>
      else if 1 / 2 < q - of_int \<lfloor>q\<rfloor> then \<lfloor>q\<rfloor> + 1
      else if even \<lfloor>q\<rfloor> then \<lfloor>q\<rfloor> else \<lfloor>q\<rfloor> + 1)"

text \<open>
  The double nearest to \<open>x\<close>: in the binade \<open>2 ^ e \<le> \<bar>x\<bar> < 2 ^ (e + 1)\<close> the doubles
  are the multiples of \<open>2 ^ (e - 52)\<close>.
\<close>

definition binary64 :: "real \<Rightarrow> real" where
  "binary64 x =
     (if x = 0 then 0
      else sgn x * (of_int (round_half_even (\<bar>x\<bar> / 2 powi (\<lfloor>log 2 \<bar>x\<bar>\<rfloor> - 52)))
                     * 2 powi (\<lfloor>log 2 \<bar>x\<bar>\<rfloor> - 52)))"

subsection \<open>Operations of Python\<close>

text \<open>\<^verbatim>\<open>a / b\<close> on floats.\<close>

definition truediv :: "(real \<Rightarrow> real) \<Rightarrow> real \<Rightarrow> real \<Rightarrow> error + real" where
  "truediv rnd a b = (if b = 0 then Inl ZeroDivisionError else Inr (rnd (a / b)))"

text \<open>\<^verbatim>\<open>math.log10(x)\<close>: a domain error for \<open>x \<le> 0\<close>.\<close>

definition math_log10 :: "(real \<Rightarrow> real) \<Rightarrow> real \<Rightarrow> error + real" where
  "math_log10 rnd x =
     (if x \<le> 0 then Inl (ValueError ''math domain error'') else Inr (rnd (log 10 x)))"

text \<open>\<^verbatim>\<open>int(y)\<close> of a float: truncation towards zero.\<close>

definition py_int :: "real \<Rightarrow> int" where
  "py_int y = (if 0 \<le> y then \<lfloor>y\<rfloor> else \<lceil>y\<rceil>)"

text \<open>
  \<^verbatim>\<open>10 ** e\<close> for an integer \<open>e\<close>: an integer, exact, when \<open>e \<ge> 0\<close>, and a float
  otherwise. Python compares an integer with a float exactly; in a product or a quotient
  with a float the integer is converted to a float first, so that there the value is
  rounded in both cases.
\<close>

definition pow10 :: "(real \<Rightarrow> real) \<Rightarrow> int \<Rightarrow> real" where
  "pow10 rnd e = (if 0 \<le> e then 10 powi e else rnd (10 powi e))"

definition pow10_float :: "(real \<Rightarrow> real) \<Rightarrow> int \<Rightarrow> real" where
  "pow10_float rnd e = rnd (10 powi e)"

section \<open>DecimalFloat\<close>

text \<open>\<^verbatim>\<open>DecimalFloat.__float__\<close>: \<^verbatim>\<open>self._mantissa * 10 ** self._exponent\<close>.\<close>

definition DecimalFloat_float :: "(real \<Rightarrow> real) \<Rightarrow> DecimalFloat \<Rightarrow> real" where
  "DecimalFloat_float rnd self = rnd (mantissa self * pow10_float rnd (exponent self))"

text \<open>\<^verbatim>\<open>Resistor.__float__\<close>: \<^verbatim>\<open>float(self._value)\<close>.\<close>

definition Resistor_float :: "(real \<Rightarrow> real) \<Rightarrow> Resistor \<Rightarrow> error + real" where
  "Resistor_float rnd self =
     (case value_attr self of
        None \<Rightarrow> Inl (AttributeError ''_value'')
      | Some v \<Rightarrow> Inr (DecimalFloat_float rnd v))"

text \<open>\<^verbatim>\<open>float(param)\<close> for each kind of operand.\<close>

fun py_float :: "(real \<Rightarrow> real) \<Rightarrow> pyval \<Rightarrow> error + real" where
  "py_float rnd (PInt i) = Inr (rnd (of_int i))"
| "py_float rnd (PFloat x) = Inr x"
| "py_float rnd (PDecimalFloat d) = Inr (DecimalFloat_float rnd d)"
| "py_float rnd (PResistor r) = Resistor_float rnd r"

text \<open>
  \<^verbatim>\<open>DecimalFloat.__init__\<close>:
  \<^verbatim>\<open>
    self._exponent = int(math.log10(float(param)))
    if (10 ** self._exponent > float(param)):
        self._exponent -= 1
    self._mantissa = float(param) / (10 ** self._exponent)
  \<close>
\<close>

definition DecimalFloat_init :: "(real \<Rightarrow> real) \<Rightarrow> pyval \<Rightarrow> error + DecimalFloat" where
  "DecimalFloat_init rnd param =
     and_then (py_float rnd param) (\<lambda>x.
     and_then (math_log10 rnd x) (\<lambda>l.
       let e0 = py_int l;
           e1 = (if pow10 rnd e0 > x then e0 - 1 else e0)
       in and_then (truediv rnd x (pow10_float rnd e1)) (\<lambda>m.
            Inr \<lparr>mantissa = m, exponent = e1\<rparr>)))"

section \<open>Resistor\<close>

text \<open>The table of float literals.\<close>

definition mantissas :: "(real \<Rightarrow> real) \<Rightarrow> real list" where
  "mantissas rnd = map rnd [1.0, 1.2, 1.5, 1.8, 2.2, 2.7, 3.3, 3.9, 4.7, 5.6, 6.8, 8.2]"

text \<open>\<^verbatim>\<open>exponents = range(1, 9)\<close>.\<close>

definition exponents :: "int set" where
  "exponents = {1..<9}"

text \<open>
  The \<^verbatim>\<open>for\<close> loop of \<^verbatim>\<open>Resistor.__init__\<close>: the first mantissa of the table that
  is \<open>\<ge>\<close> the value's mantissa replaces it; when the table is exhausted the loop ends
  and \<^verbatim>\<open>_value\<close> was never assigned.
\<close>

fun for_mantissa :: "real list \<Rightarrow> DecimalFloat \<Rightarrow> DecimalFloat option" where
  "for_mantissa [] v = None"
| "for_mantissa (m # ms) v =
     (if m \<ge> mantissa v then Some (v\<lparr>mantissa := m\<rparr>) else for_mantissa ms v)"

text \<open>
  \<^verbatim>\<open>Resistor.__init__\<close>:
  \<^verbatim>\<open>
    value = DecimalFloat(param)
    if value._mantissa > Resistor.mantissas[-1]:
        value._mantissa = Resistor.mantissas[0]
        value._exponent += 1
    if not value._exponent in Resistor.exponents:
        raise ValueError("Resistors must be between 10R and 820M")
    for mantissa in Resistor.mantissas: ...
  \<close>
\<close>

definition rollover :: "(real \<Rightarrow> real) \<Rightarrow> DecimalFloat \<Rightarrow> DecimalFloat" where
  "rollover rnd v =
     (if mantissa v > last (mantissas rnd)
      then v\<lparr>mantissa := hd (mantissas rnd), exponent := exponent v + 1\<rparr>
      else v)"

definition range_error :: error where
  "range_error = ValueError ''Resistors must be between 10R and 820M''"

definition Resistor_init :: "(real \<Rightarrow> real) \<Rightarrow> pyval \<Rightarrow> error + Resistor" where
  "Resistor_init rnd param =
     and_then (DecimalFloat_init rnd param) (\<lambda>v0.
       let v = rollover rnd v0
       in if exponent v \<notin> exponents then Inl range_error
          else Inr \<lparr>value_attr = for_mantissa (mantissas rnd) v\<rparr>)"

text \<open>\<^verbatim>\<open>param == 0\<close>: true of the numbers 0 and 0.0; an object of a class without
  \<^verbatim>\<open>__eq__\<close> is compared by identity and never equals the integer 0.\<close>

fun eq_zero :: "pyval \<Rightarrow> bool" where
  "eq_zero (PInt i) = (i = 0)"
| "eq_zero (PFloat x) = (x = 0)"
| "eq_zero (PDecimalFloat d) = False"
| "eq_zero (PResistor r) = False"

text \<open>
  \<^verbatim>\<open>Resistor.__add__\<close>:
  \<^verbatim>\<open>
    if (param == 0):
        return self
    return DecimalFloat(1 / ((1 / float(self)) + (1 / float(param))))
  \<close>
\<close>

definition Resistor_add :: "(real \<Rightarrow> real) \<Rightarrow> Resistor \<Rightarrow> pyval \<Rightarrow> error + pyval" where
  "Resistor_add rnd self param =
     (if eq_zero param then Inr (PResistor self)
      else and_then (Resistor_float rnd self) (\<lambda>a.
           and_then (truediv rnd 1 a) (\<lambda>ia.
           and_then (py_float rnd param) (\<lambda>b.
           and_then (truediv rnd 1 b) (\<lambda>ib.
           and_then (truediv rnd 1 (rnd (ia + ib))) (\<lambda>y.
           and_then (DecimalFloat_init rnd (PFloat y)) (\<lambda>d.
             Inr (PDecimalFloat d))))))))"


text \<open>
  \<^verbatim>\<open>Resistor.__sub__\<close>; the program calls it as a plain function with a float as
  \<^verbatim>\<open>self\<close>, so \<open>self\<close> is any operand here:
  \<^verbatim>\<open>
    if (float(self) == float(param)):
        return 0
    return DecimalFloat(1 / ((1 / float(self)) - (1 / float(param))))
  \<close>
\<close>

definition Resistor_sub :: "(real \<Rightarrow> real) \<Rightarrow> pyval \<Rightarrow> pyval \<Rightarrow> error + pyval" where
  "Resistor_sub rnd self param =
     and_then (py_float rnd self) (\<lambda>a.
     and_then (py_float rnd param) (\<lambda>b.
       if a = b then Inr (PInt 0)
       else and_then (truediv rnd 1 a) (\<lambda>ia.
            and_then (truediv rnd 1 b) (\<lambda>ib.
            and_then (truediv rnd 1 (rnd (ia - ib))) (\<lambda>y.
            and_then (DecimalFloat_init rnd (PFloat y)) (\<lambda>d.
              Inr (PDecimalFloat d)))))))"

section \<open>The approximation loop\<close>

text \<open>
  \<^verbatim>\<open>
    currentValue = 0
    for approxValue in output:
        currentValue = approxValue + currentValue
  \<close>
\<close>

fun for_approxValue :: "(real \<Rightarrow> real) \<Rightarrow> Resistor list \<Rightarrow> pyval \<Rightarrow> error + pyval" where
  "for_approxValue rnd [] currentValue = Inr currentValue"
| "for_approxValue rnd (approxValue # rest) currentValue =
     and_then (Resistor_add rnd approxValue currentValue) (for_approxValue rnd rest)"

text \<open>
  One pass through the body of \<^verbatim>\<open>while True\<close>: \<open>Inr None\<close> is
  \<^verbatim>\<open>return output\<close> at the tolerance test, \<open>Inr (Some r)\<close> is the resistor that
  \<^verbatim>\<open>output.append\<close> adds, \<open>Inl e\<close> is an exception raised in the body.
  \<^verbatim>\<open>
    if abs(float(currentValue) - value) / value < tolerance:
        return output
    difference = Resistor.__sub__(value, currentValue)
    output.append(Resistor(difference))
  \<close>
\<close>

definition loop_body ::
  "(real \<Rightarrow> real) \<Rightarrow> real \<Rightarrow> real \<Rightarrow> Resistor list \<Rightarrow> error + Resistor option" where
  "loop_body rnd value tolerance output =
     and_then (for_approxValue rnd output (PInt 0)) (\<lambda>currentValue.
     and_then (py_float rnd currentValue) (\<lambda>c.
     and_then (truediv rnd \<bar>rnd (c - value)\<bar> value) (\<lambda>err.
       if err < tolerance then Inr None
       else and_then (Resistor_sub rnd (PFloat value) currentValue) (\<lambda>difference.
            and_then (Resistor_init rnd difference) (\<lambda>r.
              Inr (Some r))))))"

text \<open>
  \<^verbatim>\<open>try: while True: ... except ValueError: return output\<close>. A \<^verbatim>\<open>ValueError\<close>
  raised in the body returns the list as it stands; any other exception propagates.
  The loop has no bound of its own, so the function is partial: \<open>None\<close> is a run that
  never returns.
\<close>

partial_function (option) while_True ::
  "(real \<Rightarrow> real) \<Rightarrow> real \<Rightarrow> real \<Rightarrow> Resistor list \<Rightarrow> (error + Resistor list) option" where
  "while_True rnd value tolerance output =
     (case loop_body rnd value tolerance output of
        Inl (ValueError msg) \<Rightarrow> Some (Inr output)
      | Inl e \<Rightarrow> Some (Inl e)
      | Inr None \<Rightarrow> Some (Inr output)
      | Inr (Some r) \<Rightarrow> while_True rnd value tolerance (output @ [r]))"

text \<open>
  \<^verbatim>\<open>approximateResistor(value, tolerance)\<close>: the first resistor is built before the
  \<^verbatim>\<open>try\<close>, so its exception propagates.
\<close>

definition approximateResistor ::
  "(real \<Rightarrow> real) \<Rightarrow> pyval \<Rightarrow> real \<Rightarrow> (error + Resistor list) option" where
  "approximateResistor rnd value tolerance =
     (case py_float rnd value of
        Inl e \<Rightarrow> Some (Inl e)
      | Inr v \<Rightarrow>
          (case Resistor_init rnd (PFloat v) of
             Inl e \<Rightarrow> Some (Inl e)
           | Inr r \<Rightarrow> while_True rnd v tolerance [r]))"

section \<open>Running the loop: auxiliary notions\<close>

text \<open>
  A resistor as the constructor builds it: a table mantissa and an exponent of the range.
\<close>

definition standard :: "Resistor \<Rightarrow> bool" where
  "standard r =
     (case value_attr r of
        None \<Rightarrow> False
      | Some v \<Rightarrow> mantissa v \<in> set (mantissas exact) \<and> exponent v \<in> exponents)"

text \<open>The numeric value of a resistor, and the conductance of a list in parallel.\<close>

definition resistance :: "Resistor \<Rightarrow> real" where
  "resistance r = (case value_attr r of None \<Rightarrow> 0 | Some v \<Rightarrow> DecimalFloat_float exact v)"

definition conductance :: "Resistor list \<Rightarrow> real" where
  "conductance rs = sum_list (map (\<lambda>r. 1 / resistance r) rs)"


section \<open>Formatting\<close>










section \<open>Exact arithmetic\<close>

lemma pow10_exact [simp]: "pow10 exact e = 10 powi e"
  by (simp add: pow10_def)

lemma pow10_float_exact [simp]: "pow10_float exact e = 10 powi e"
  by (simp add: pow10_float_def)

section \<open>Properties of DecimalFloat\<close>

lemma pow10_le_iff: "0 < x \<Longrightarrow> ((10::real) powi k \<le> x) = (of_int k \<le> log 10 x)"
proof -
  assume x: "0 < x"
  have "(10::real) powi k = 10 powr (of_int k)"
    by (simp add: powr_real_of_int')
  moreover have "x = 10 powr (log 10 x)"
    using x by simp
  ultimately show ?thesis
    by (metis powr_le_cancel_iff one_less_numeral_iff semiring_norm(76))
qed

lemma decade_exponent:
  assumes "0 < x"
  shows "(if 10 powi (py_int (log 10 x)) > x then py_int (log 10 x) - 1 else py_int (log 10 x))
         = \<lfloor>log 10 x\<rfloor>"
proof (cases "0 \<le> log 10 x")
  case True
  then have "py_int (log 10 x) = \<lfloor>log 10 x\<rfloor>" by (simp add: py_int_def)
  moreover have "10 powi \<lfloor>log 10 x\<rfloor> \<le> x"
    using assms by (simp add: pow10_le_iff)
  ultimately show ?thesis by simp
next
  case False
  then have c: "py_int (log 10 x) = \<lceil>log 10 x\<rceil>" by (simp add: py_int_def)
  have iff: "(10 powi \<lceil>log 10 x\<rceil> > x) = (log 10 x < of_int \<lceil>log 10 x\<rceil>)"
    using pow10_le_iff [OF assms, of "\<lceil>log 10 x\<rceil>"] by linarith
  show ?thesis
    unfolding c iff by (simp add: ceiling_altdef)
qed

lemma DecimalFloat_init_pos:
  assumes "0 < x"
  shows "DecimalFloat_init exact (PFloat x) =
         Inr \<lparr>mantissa = x / 10 powi \<lfloor>log 10 x\<rfloor>, exponent = \<lfloor>log 10 x\<rfloor>\<rparr>"
  using assms decade_exponent [OF assms]
  by (simp add: DecimalFloat_init_def math_log10_def and_then_def truediv_def Let_def)

lemma DecimalFloat_init_nonpos:
  "x \<le> 0 \<Longrightarrow> DecimalFloat_init exact (PFloat x) = Inl (ValueError ''math domain error'')"
  by (simp add: DecimalFloat_init_def math_log10_def and_then_def)

lemma decade_bounds:
  assumes "0 < x"
  shows "10 powi \<lfloor>log 10 x\<rfloor> \<le> x" and "x < 10 powi (\<lfloor>log 10 x\<rfloor> + 1)"
proof -
  show "10 powi \<lfloor>log 10 x\<rfloor> \<le> x" using assms by (simp add: pow10_le_iff)
  have "\<not> (10 powi (\<lfloor>log 10 x\<rfloor> + 1) \<le> x)"
    using pow10_le_iff [OF assms, of "\<lfloor>log 10 x\<rfloor> + 1"] by simp linarith
  then show "x < 10 powi (\<lfloor>log 10 x\<rfloor> + 1)" by simp
qed

lemma floor_log10_eq:
  assumes "10 powi k \<le> x" "x < 10 powi (k + 1)"
  shows "\<lfloor>log 10 x\<rfloor> = k"
proof -
  have x: "0 < x" using assms(1) zero_less_power_int [of "10::real" k] by linarith
  have "of_int k \<le> log 10 x" using assms(1) x by (simp add: pow10_le_iff)
  moreover have "\<not> (of_int (k + 1) \<le> log 10 x)"
    using assms(2) pow10_le_iff [OF x, of "k + 1"] by linarith
  ultimately show ?thesis by linarith
qed

lemma decade_mantissa:
  assumes "0 < x"
  shows "1 \<le> x / 10 powi \<lfloor>log 10 x\<rfloor>" and "x / 10 powi \<lfloor>log 10 x\<rfloor> < 10"
proof -
  let ?p = "(10::real) powi \<lfloor>log 10 x\<rfloor>"
  have p: "0 < ?p" by simp
  have "?p \<le> x" by (rule decade_bounds(1) [OF assms])
  then show "1 \<le> x / ?p" using p by (simp add: le_divide_eq)
  have "x < 10 powi (\<lfloor>log 10 x\<rfloor> + 1)" by (rule decade_bounds(2) [OF assms])
  also have "\<dots> = 10 * ?p" by (simp add: power_int_add)
  finally show "x / ?p < 10" using p by (simp add: divide_less_eq)
qed

lemma floor_log10_ge: "0 < x \<Longrightarrow> (j \<le> \<lfloor>log 10 x\<rfloor>) = (10 powi j \<le> x)"
  by (simp add: pow10_le_iff le_floor_iff)

lemma for_mantissa_table:
  assumes "mantissa v \<le> 8.2"
  shows "\<exists>M. for_mantissa (mantissas exact) v = Some (v\<lparr>mantissa := M\<rparr>) \<and> M \<in> set (mantissas exact)
           \<and> mantissa v \<le> M
           \<and> (\<forall>M'\<in>set (mantissas exact). mantissa v \<le> M' \<longrightarrow> M \<le> M')
           \<and> (1 \<le> mantissa v \<longrightarrow> 4 * M \<le> 5 * mantissa v)"
  using assms unfolding mantissas_def by auto

lemma Resistor_init_pos:
  assumes "0 < x"
  shows "Resistor_init exact (PFloat x) =
     (let v = rollover exact \<lparr>mantissa = x / 10 powi \<lfloor>log 10 x\<rfloor>, exponent = \<lfloor>log 10 x\<rfloor>\<rparr>
      in if exponent v \<notin> exponents then Inl range_error
         else Inr \<lparr>value_attr = for_mantissa (mantissas exact) v\<rparr>)"
  by (simp add: Resistor_init_def DecimalFloat_init_pos [OF assms] and_then_def)

lemma last_mantissas: "last (mantissas exact) = 8.2"
  by (simp add: mantissas_def)

lemma hd_mantissas: "hd (mantissas exact) = 1"
  by (simp add: mantissas_def)

lemma rollover_simp:
  "rollover exact \<lparr>mantissa = m, exponent = k\<rparr> =
     (if 8.2 < m then \<lparr>mantissa = 1, exponent = k + 1\<rparr> else \<lparr>mantissa = m, exponent = k\<rparr>)"
  by (simp add: rollover_def last_mantissas hd_mantissas)

lemma for_mantissa_one:
  "for_mantissa (mantissas exact) \<lparr>mantissa = 1, exponent = k\<rparr> = Some \<lparr>mantissa = 1, exponent = k\<rparr>"
  by (simp add: mantissas_def)

lemma rollover_in_range:
  assumes "0 < x"
  shows "(exponent (rollover exact \<lparr>mantissa = x / 10 powi \<lfloor>log 10 x\<rfloor>, exponent = \<lfloor>log 10 x\<rfloor>\<rparr>)
            \<in> exponents) = (8.2 < x \<and> x \<le> 820000000)"
proof -
  let ?k = "\<lfloor>log 10 x\<rfloor>"
  let ?p = "(10::real) powi ?k"
  let ?m = "x / ?p"
  have p: "0 < ?p" by simp
  have x: "x = ?m * ?p" by simp
  have m: "1 \<le> ?m" "?m < 10" using decade_mantissa [OF assms] by simp_all
  have ge: "\<And>j. (j \<le> ?k) = (10 powi j \<le> x)" by (rule floor_log10_ge [OF assms])
  have k0: "(0 \<le> ?k) = (1 \<le> x)" using ge [of 0] by simp
  have k1: "(1 \<le> ?k) = (10 \<le> x)" using ge [of 1] by simp
  have k8: "(8 \<le> ?k) = (100000000 \<le> x)" using ge [of 8] by simp
  have k9: "(9 \<le> ?k) = (1000000000 \<le> x)" using ge [of 9] by simp
  show ?thesis
  proof (cases "8.2 < ?m")
    case True
    have a: "?k = 8 \<Longrightarrow> 820000000 < x"
    proof -
      assume "?k = 8"
      then have "?p = 100000000" by simp
      with True show "820000000 < x" by simp
    qed
    have b: "?k = 0 \<Longrightarrow> 8.2 < x"
    proof -
      assume "?k = 0"
      then have "?p = 1" by simp
      with True show "8.2 < x" by simp
    qed
    have c: "1 \<le> ?k \<Longrightarrow> 8.2 < x" using k1 by linarith
    have "(0 \<le> ?k \<and> ?k \<le> 7) = (8.2 < x \<and> x \<le> 820000000)"
    proof (intro iffI conjI)
      assume h: "0 \<le> ?k \<and> ?k \<le> 7"
      show "8.2 < x"
      proof (cases "?k = 0")
        case True
        then show ?thesis by (rule b)
      next
        case False
        with h have "1 \<le> ?k" by linarith
        then show ?thesis by (rule c)
      qed
      from h have "\<not> 8 \<le> ?k" by linarith
      with k8 have "\<not> 100000000 \<le> x" by simp
      then show "x \<le> 820000000" by linarith
    next
      assume h: "8.2 < x \<and> x \<le> 820000000"
      then have "1 \<le> x" by linarith
      with k0 show "0 \<le> ?k" by simp
      from h have "\<not> 1000000000 \<le> x" by linarith
      with k9 have "\<not> 9 \<le> ?k" by simp
      moreover have "?k \<noteq> 8" using a h by linarith
      ultimately show "?k \<le> 7" by linarith
    qed
    with True show ?thesis by (simp add: rollover_simp exponents_def)
  next
    case False
    have a: "?k = 8 \<Longrightarrow> x \<le> 820000000"
    proof -
      assume "?k = 8"
      then have "?p = 100000000" by simp
      with False show "x \<le> 820000000" by simp
    qed
    have b: "?k = 0 \<Longrightarrow> x \<le> 8.2"
    proof -
      assume "?k = 0"
      then have "?p = 1" by simp
      with False show "x \<le> 8.2" by simp
    qed
    have "(1 \<le> ?k \<and> ?k \<le> 8) = (8.2 < x \<and> x \<le> 820000000)"
    proof (intro iffI conjI)
      assume h: "1 \<le> ?k \<and> ?k \<le> 8"
      with k1 have "10 \<le> x" by simp
      then show "8.2 < x" by linarith
      show "x \<le> 820000000"
      proof (cases "?k = 8")
        case True
        then show ?thesis by (rule a)
      next
        case False
        with h have "\<not> 8 \<le> ?k" by linarith
        with k8 have "\<not> 100000000 \<le> x" by simp
        then show ?thesis by linarith
      qed
    next
      assume h: "8.2 < x \<and> x \<le> 820000000"
      then have "1 \<le> x" by linarith
      with k0 have "0 \<le> ?k" by simp
      moreover have "?k \<noteq> 0" using b h by linarith
      ultimately show "1 \<le> ?k" by linarith
      from h have "\<not> 1000000000 \<le> x" by linarith
      with k9 have "\<not> 9 \<le> ?k" by simp
      then show "?k \<le> 8" by linarith
    qed
    with False show ?thesis by (simp add: rollover_simp exponents_def)
  qed
qed

lemma Resistor_init_range_error:
  assumes "0 < x" "\<not> (8.2 < x \<and> x \<le> 820000000)"
  shows "Resistor_init exact (PFloat x) = Inl range_error"
  using rollover_in_range [OF assms(1)] assms(2)
  by (simp add: Resistor_init_pos [OF assms(1)] Let_def)

lemma Resistor_init_ok:
  assumes "8.2 < x" "x \<le> 820000000"
  shows "\<exists>M e. Resistor_init exact (PFloat x) = Inr \<lparr>value_attr = Some \<lparr>mantissa = M, exponent = e\<rparr>\<rparr>
           \<and> M \<in> set (mantissas exact) \<and> e \<in> exponents
           \<and> x \<le> M * 10 powi e \<and> 4 * (M * 10 powi e) \<le> 5 * x
           \<and> (if 8.2 < x / 10 powi \<lfloor>log 10 x\<rfloor>
                then M = 1 \<and> e = \<lfloor>log 10 x\<rfloor> + 1
                else e = \<lfloor>log 10 x\<rfloor> \<and> x / 10 powi \<lfloor>log 10 x\<rfloor> \<le> M
                   \<and> (\<forall>M'\<in>set (mantissas exact). x / 10 powi \<lfloor>log 10 x\<rfloor> \<le> M' \<longrightarrow> M \<le> M'))"
proof -
  have pos: "0 < x" using assms(1) by simp
  let ?k = "\<lfloor>log 10 x\<rfloor>"
  let ?p = "(10::real) powi ?k"
  let ?m = "x / ?p"
  let ?v = "rollover exact \<lparr>mantissa = ?m, exponent = ?k\<rparr>"
  have p: "0 < ?p" by simp
  have x: "x = ?m * ?p" by simp
  have m: "1 \<le> ?m" "?m < 10" using decade_mantissa [OF pos] by simp_all
  have inr: "exponent ?v \<in> exponents" using rollover_in_range [OF pos] assms by simp
  then have init: "Resistor_init exact (PFloat x) = Inr \<lparr>value_attr = for_mantissa (mantissas exact) ?v\<rparr>"
    by (simp add: Resistor_init_pos [OF pos] Let_def)
  show ?thesis
  proof (cases "8.2 < ?m")
    case True
    then have v: "?v = \<lparr>mantissa = 1, exponent = ?k + 1\<rparr>" by (simp add: rollover_simp)
    have p1: "(10::real) powi (?k + 1) = 10 * ?p" by (simp add: power_int_add)
    have "x < 10 * ?p" using m(2) p by (simp add: divide_less_eq)
    moreover have "8.2 * ?p < x" using True p by (simp only: less_divide_eq)
    moreover note p
    ultimately have "x \<le> 1 * 10 powi (?k + 1) \<and> 4 * (1 * 10 powi (?k + 1)) \<le> 5 * x"
      unfolding p1 by linarith
    moreover have "(1::real) \<in> set (mantissas exact)" by (simp add: mantissas_def)
    moreover have "?k + 1 \<in> exponents" using inr v by simp
    moreover have "Resistor_init exact (PFloat x)
          = Inr \<lparr>value_attr = Some \<lparr>mantissa = 1, exponent = ?k + 1\<rparr>\<rparr>"
      using init unfolding v for_mantissa_one by simp
    ultimately show ?thesis
      using True by (intro exI [of _ 1] exI [of _ "?k + 1"] conjI) simp_all
  next
    case False
    then have v: "?v = \<lparr>mantissa = ?m, exponent = ?k\<rparr>" by (simp add: rollover_simp)
    from False have "mantissa \<lparr>mantissa = ?m, exponent = ?k\<rparr> \<le> 8.2" by simp
    from for_mantissa_table [OF this] m(1)
    obtain M where M: "for_mantissa (mantissas exact) \<lparr>mantissa = ?m, exponent = ?k\<rparr>
                         = Some \<lparr>mantissa = M, exponent = ?k\<rparr>"
      "M \<in> set (mantissas exact)" "?m \<le> M" "4 * M \<le> 5 * ?m"
      "\<forall>M'\<in>set (mantissas exact). ?m \<le> M' \<longrightarrow> M \<le> M'"
      by auto
    have "?m * ?p \<le> M * ?p" using M(3) p by (simp only: mult_le_cancel_right_pos)
    moreover have "4 * M * ?p \<le> 5 * ?m * ?p" using M(4) p by (simp only: mult_le_cancel_right_pos)
    ultimately have "x \<le> M * ?p \<and> 4 * (M * ?p) \<le> 5 * x"
      using x by (simp add: mult.assoc)
    moreover have "?k \<in> exponents" using inr v by simp
    moreover have "Resistor_init exact (PFloat x)
          = Inr \<lparr>value_attr = Some \<lparr>mantissa = M, exponent = ?k\<rparr>\<rparr>"
      using init M(1) unfolding v by simp
    moreover note M(2)
    ultimately show ?thesis
      using False M(3,5) by (intro exI [of _ M] exI [of _ "?k"] conjI) simp_all
  qed
qed

lemma standard_float: "standard r \<Longrightarrow> Resistor_float exact r = Inr (resistance r)"
  by (auto simp: standard_def Resistor_float_def resistance_def split: option.splits)

lemma standard_pos: "standard r \<Longrightarrow> 0 < resistance r"
  by (auto simp: standard_def resistance_def DecimalFloat_float_def mantissas_def
      split: option.splits)

lemma DecimalFloat_roundtrip:
  assumes "0 < y"
  shows "\<exists>d. DecimalFloat_init exact (PFloat y) = Inr d \<and> DecimalFloat_float exact d = y"
  by (simp add: DecimalFloat_init_pos [OF assms] DecimalFloat_float_def)

lemma DecimalFloat_init_cong:
  "py_float exact p = Inr y \<Longrightarrow> DecimalFloat_init exact p = DecimalFloat_init exact (PFloat y)"
  by (simp add: DecimalFloat_init_def)

lemma Resistor_init_cong:
  "py_float exact p = Inr y \<Longrightarrow> Resistor_init exact p = Resistor_init exact (PFloat y)"
  by (simp add: Resistor_init_def DecimalFloat_init_cong [of p y])

lemma eq_zero_float: "py_float exact p = Inr c \<Longrightarrow> c \<noteq> 0 \<Longrightarrow> \<not> eq_zero p"
  by (cases p) auto

lemma Resistor_add_pos:
  assumes "standard r" "py_float exact p = Inr c" "0 < c"
  shows "\<exists>d. Resistor_add exact r p = Inr (PDecimalFloat d)
           \<and> 0 < DecimalFloat_float exact d
           \<and> 1 / DecimalFloat_float exact d = 1 / resistance r + 1 / c"
proof -
  let ?a = "resistance r"
  let ?y = "1 / (1 / ?a + 1 / c)"
  have a: "0 < ?a" by (rule standard_pos [OF assms(1)])
  have s: "0 < 1 / ?a + 1 / c" using a assms(3) by (simp add: add_pos_pos)
  then have y: "0 < ?y" by simp
  from DecimalFloat_roundtrip [OF y] obtain d where
    d: "DecimalFloat_init exact (PFloat ?y) = Inr d" "DecimalFloat_float exact d = ?y" by blast
  have nz: "\<not> eq_zero p" using eq_zero_float [OF assms(2)] assms(3) by simp
  have "Resistor_add exact r p = Inr (PDecimalFloat d)"
    using a s assms(2,3) nz d(1)
    by (simp add: Resistor_add_def standard_float [OF assms(1)] and_then_def truediv_def)
  moreover have "1 / DecimalFloat_float exact d = 1 / ?a + 1 / c" using d(2) s by simp
  ultimately show ?thesis using y d(2) by simp
qed

lemma for_approxValue_pos:
  assumes "list_all standard rs" "py_float exact p = Inr c" "0 < c"
  shows "\<exists>cv c'. for_approxValue exact rs p = Inr cv \<and> py_float exact cv = Inr c' \<and> 0 < c'
           \<and> 1 / c' = 1 / c + conductance rs"
  using assms
proof (induction rs arbitrary: p c)
  case Nil
  then show ?case by (simp add: conductance_def)
next
  case (Cons r rs)
  from Cons.prems have r: "standard r" and rs: "list_all standard rs" by simp_all
  from Resistor_add_pos [OF r Cons.prems(2,3)] obtain d where
    d: "Resistor_add exact r p = Inr (PDecimalFloat d)" "0 < DecimalFloat_float exact d"
       "1 / DecimalFloat_float exact d = 1 / resistance r + 1 / c" by blast
  have "py_float exact (PDecimalFloat d) = Inr (DecimalFloat_float exact d)" by simp
  from Cons.IH [OF rs this d(2)] obtain cv c' where
    "for_approxValue exact rs (PDecimalFloat d) = Inr cv" "py_float exact cv = Inr c'" "0 < c'"
    "1 / c' = 1 / DecimalFloat_float exact d + conductance rs" by blast
  then show ?case
    using d(1,3) by (simp add: and_then_def conductance_def)
qed

lemma for_approxValue_value:
  assumes "rs \<noteq> []" "list_all standard rs"
  shows "\<exists>cv c. for_approxValue exact rs (PInt 0) = Inr cv \<and> py_float exact cv = Inr c \<and> 0 < c
           \<and> 1 / c = conductance rs"
proof -
  from assms obtain r rest where rs: "rs = r # rest" by (cases rs) auto
  with assms(2) have r: "standard r" and rest: "list_all standard rest" by simp_all
  have f: "py_float exact (PResistor r) = Inr (resistance r)" by (simp add: standard_float [OF r])
  from for_approxValue_pos [OF rest f standard_pos [OF r]] show ?thesis
    unfolding rs by (simp add: Resistor_add_def and_then_def conductance_def)
qed

lemma Resistor_init_int0: "Resistor_init exact (PInt 0) = Inl (ValueError ''math domain error'')"
  by (simp add: Resistor_init_def DecimalFloat_init_def math_log10_def and_then_def)

lemma Resistor_init_nonpos:
  "x \<le> 0 \<Longrightarrow> Resistor_init exact (PFloat x) = Inl (ValueError ''math domain error'')"
  by (simp add: Resistor_init_def DecimalFloat_init_nonpos and_then_def)

lemma Resistor_init_cases:
  "(\<exists>msg. Resistor_init exact (PFloat x) = Inl (ValueError msg)) \<or>
   (\<exists>r. Resistor_init exact (PFloat x) = Inr r \<and> standard r \<and> 8.2 < x \<and> x \<le> 820000000
        \<and> x \<le> resistance r \<and> 4 * resistance r \<le> 5 * x)"
proof (cases "8.2 < x \<and> x \<le> 820000000")
  case True
  from Resistor_init_ok [of x] True obtain M e where
    r: "Resistor_init exact (PFloat x) = Inr \<lparr>value_attr = Some \<lparr>mantissa = M, exponent = e\<rparr>\<rparr>"
       "M \<in> set (mantissas exact)" "e \<in> exponents" "x \<le> M * 10 powi e" "4 * (M * 10 powi e) \<le> 5 * x"
    by blast
  let ?r = "\<lparr>value_attr = Some \<lparr>mantissa = M, exponent = e\<rparr>\<rparr>"
  have "standard ?r" using r(2,3) by (simp add: standard_def)
  moreover have "resistance ?r = M * 10 powi e"
    by (simp add: resistance_def DecimalFloat_float_def)
  ultimately show ?thesis using r(1,4,5) True by auto
next
  case False
  show ?thesis
  proof (cases "0 < x")
    case True
    from Resistor_init_range_error [OF True False] show ?thesis
      by (simp add: range_error_def)
  next
    case False
    then show ?thesis by (simp add: Resistor_init_nonpos)
  qed
qed

text \<open>One pass of the loop body, for a positive target and a list of standard resistors.\<close>

lemma loop_body_cases:
  assumes v: "0 < v" and ne: "rs \<noteq> []" and st: "list_all standard rs"
  shows "loop_body exact v tol rs = Inr None
       \<or> (\<exists>msg. loop_body exact v tol rs = Inl (ValueError msg))
       \<or> (\<exists>r. loop_body exact v tol rs = Inr (Some r) \<and> standard r
             \<and> 1 / 820000000 \<le> 1 / v - conductance rs
             \<and> 0 \<le> 1 / v - conductance (rs @ [r])
             \<and> 5 * (1 / v - conductance (rs @ [r])) \<le> 1 / v - conductance rs)"
proof -
  from for_approxValue_value [OF ne st] obtain cv c where
    cv: "for_approxValue exact rs (PInt 0) = Inr cv" "py_float exact cv = Inr c" "0 < c"
        "1 / c = conductance rs" by blast
  let ?G = "1 / v - 1 / c"
  let ?y = "1 / ?G"
  have body: "loop_body exact v tol rs =
      (if \<bar>c - v\<bar> / v < tol then Inr None
       else and_then (Resistor_sub exact (PFloat v) cv) (\<lambda>difference.
            and_then (Resistor_init exact difference) (\<lambda>r. Inr (Some r))))"
    using v cv(1,2) by (simp add: loop_body_def and_then_def truediv_def)
  show ?thesis
  proof (cases "\<bar>c - v\<bar> / v < tol")
    case True
    then show ?thesis by (simp add: body)
  next
    case far: False
    show ?thesis
    proof (cases "v = c")
      case True
      then have "Resistor_sub exact (PFloat v) cv = Inr (PInt 0)"
        using cv(2) by (simp add: Resistor_sub_def and_then_def)
      then show ?thesis using far by (simp add: body and_then_def Resistor_init_int0)
    next
      case False
      then have G: "?G \<noteq> 0" using v cv(3) by (simp add: field_simps)
      have sub: "Resistor_sub exact (PFloat v) cv =
          and_then (DecimalFloat_init exact (PFloat ?y)) (\<lambda>d. Inr (PDecimalFloat d))"
        using False v cv(2,3) G by (simp add: Resistor_sub_def and_then_def truediv_def)
      show ?thesis
      proof (cases "0 < ?y")
        case False
        then have "DecimalFloat_init exact (PFloat ?y) = Inl (ValueError ''math domain error'')"
          by (simp add: DecimalFloat_init_nonpos)
        then show ?thesis using far by (simp add: body sub and_then_def)
      next
        case True
        from DecimalFloat_roundtrip [OF True] obtain d where
          d: "DecimalFloat_init exact (PFloat ?y) = Inr d" "DecimalFloat_float exact d = ?y" by blast
        have "py_float exact (PDecimalFloat d) = Inr ?y" using d(2) by simp
        then have init: "Resistor_init exact (PDecimalFloat d) = Resistor_init exact (PFloat ?y)"
          by (rule Resistor_init_cong)
        have body': "loop_body exact v tol rs =
            and_then (Resistor_init exact (PFloat ?y)) (\<lambda>r. Inr (Some r))"
          using far by (simp add: body sub d(1) and_then_def init)
        from Resistor_init_cases [of ?y] show ?thesis
        proof
          assume "\<exists>msg. Resistor_init exact (PFloat ?y) = Inl (ValueError msg)"
          then show ?thesis by (auto simp: body' and_then_def)
        next
          assume "\<exists>r. Resistor_init exact (PFloat ?y) = Inr r \<and> standard r \<and> 8.2 < ?y
              \<and> ?y \<le> 820000000 \<and> ?y \<le> resistance r \<and> 4 * resistance r \<le> 5 * ?y"
          then obtain r where r: "Resistor_init exact (PFloat ?y) = Inr r" "standard r"
            "?y \<le> 820000000" "?y \<le> resistance r" "4 * resistance r \<le> 5 * ?y" by blast
          let ?R = "resistance r"
          have Gpos: "0 < ?G" using True by simp
          have R: "0 < ?R" by (rule standard_pos [OF r(2)])
          have c1: "conductance (rs @ [r]) = conductance rs + 1 / ?R"
            by (simp add: conductance_def)
          have g1: "1 / 820000000 \<le> ?G"
            using r(3) Gpos by (simp add: field_simps)
          have g2: "1 / ?R \<le> ?G"
            using r(4) Gpos R by (simp add: field_simps)
          have "4 * ?R * ?G \<le> 5"
            using r(5) Gpos by (simp add: field_simps)
          then have "4 * ?G \<le> 5 / ?R"
            using R by (simp add: field_simps)
          then have g3: "5 * (?G - 1 / ?R) \<le> ?G" by simp
          have h1: "1 / 820000000 \<le> 1 / v - conductance rs"
            using g1 by (simp only: cv(4))
          have h2: "0 \<le> 1 / v - conductance (rs @ [r])"
            using g2 unfolding c1 cv(4) [symmetric] by (simp add: algebra_simps)
          have h3: "5 * (1 / v - conductance (rs @ [r])) \<le> 1 / v - conductance rs"
            using g3 unfolding c1 cv(4) [symmetric] by (simp add: algebra_simps)
          have "loop_body exact v tol rs = Inr (Some r)" by (simp add: body' r(1) and_then_def)
          with r(2) h1 h2 h3 show ?thesis by blast
        qed
      qed
    qed
  qed
qed

lemma while_True_return:
  "loop_body exact v tol rs = Inr None \<Longrightarrow> while_True exact v tol rs = Some (Inr rs)"
  by (subst while_True.simps) simp

lemma while_True_except:
  "loop_body exact v tol rs = Inl (ValueError msg) \<Longrightarrow> while_True exact v tol rs = Some (Inr rs)"
  by (subst while_True.simps) simp

lemma while_True_append:
  "loop_body exact v tol rs = Inr (Some r) \<Longrightarrow> while_True exact v tol rs = while_True exact v tol (rs @ [r])"
  by (subst while_True.simps) simp

lemma while_True_bounded:
  assumes v: "0 < v"
  shows "rs \<noteq> [] \<Longrightarrow> list_all standard rs
     \<Longrightarrow> 1 / v - conductance rs < 5 ^ n / 820000000
     \<Longrightarrow> \<exists>ext. while_True exact v tol rs = Some (Inr (rs @ ext)) \<and> list_all standard (rs @ ext)
           \<and> (loop_body exact v tol (rs @ ext) = Inr None
               \<or> (\<exists>msg. loop_body exact v tol (rs @ ext) = Inl (ValueError msg)))"
proof (induction n arbitrary: rs)
  case 0
  from loop_body_cases [OF v "0.prems"(1,2), of tol] show ?case
  proof (elim disjE exE conjE)
    assume b: "loop_body exact v tol rs = Inr None"
    show ?thesis
      using while_True_return [OF b] b "0.prems"(2) by (intro exI [of _ "[]"]) simp
  next
    fix msg assume b: "loop_body exact v tol rs = Inl (ValueError msg)"
    show ?thesis
      using while_True_except [OF b] b "0.prems"(2) by (intro exI [of _ "[]"]) simp
  next
    fix r assume "1 / 820000000 \<le> 1 / v - conductance rs"
    with "0.prems"(3) show ?thesis by simp
  qed
next
  case (Suc n)
  from loop_body_cases [OF v Suc.prems(1,2), of tol] show ?case
  proof (elim disjE exE conjE)
    assume b: "loop_body exact v tol rs = Inr None"
    show ?thesis
      using while_True_return [OF b] b Suc.prems(2) by (intro exI [of _ "[]"]) simp
  next
    fix msg assume b: "loop_body exact v tol rs = Inl (ValueError msg)"
    show ?thesis
      using while_True_except [OF b] b Suc.prems(2) by (intro exI [of _ "[]"]) simp
  next
    fix r assume b: "loop_body exact v tol rs = Inr (Some r)" and r: "standard r"
      and g: "5 * (1 / v - conductance (rs @ [r])) \<le> 1 / v - conductance rs"
    have "5 * (1 / v - conductance (rs @ [r])) < 5 * (5 ^ n / 820000000)"
      using g Suc.prems(3) by simp
    then have less: "1 / v - conductance (rs @ [r]) < 5 ^ n / 820000000" by simp
    have st: "list_all standard (rs @ [r])" using Suc.prems(2) r by simp
    from Suc.IH [OF _ st less] obtain ext where
      ext: "while_True exact v tol (rs @ [r]) = Some (Inr ((rs @ [r]) @ ext))"
           "list_all standard ((rs @ [r]) @ ext)"
           "loop_body exact v tol ((rs @ [r]) @ ext) = Inr None
               \<or> (\<exists>msg. loop_body exact v tol ((rs @ [r]) @ ext) = Inl (ValueError msg))"
      by auto
    show ?thesis
      using ext while_True_append [OF b] by (intro exI [of _ "r # ext"]) simp
  qed
qed

lemma while_True_terminates:
  assumes v: "0 < v" and ne: "rs \<noteq> []" and st: "list_all standard rs"
  shows "\<exists>ext. while_True exact v tol rs = Some (Inr (rs @ ext)) \<and> list_all standard (rs @ ext)
           \<and> (loop_body exact v tol (rs @ ext) = Inr None
               \<or> (\<exists>msg. loop_body exact v tol (rs @ ext) = Inl (ValueError msg)))"
proof -
  obtain n where "(1 / v - conductance rs) * 820000000 < 5 ^ n"
    using real_arch_pow [of 5 "(1 / v - conductance rs) * 820000000"] by auto
  then have "1 / v - conductance rs < 5 ^ n / 820000000" by (simp add: field_simps)
  from while_True_bounded [OF v ne st this] show ?thesis .
qed

lemma DecimalFloat_init_eval:
  assumes "10 powi k \<le> x" and "x < 10 powi (k + 1)"
  shows "DecimalFloat_init exact (PFloat x) = Inr \<lparr>mantissa = x / 10 powi k, exponent = k\<rparr>"
proof -
  have "0 < x" using assms(1) zero_less_power_int [of "10::real" k] by linarith
  from DecimalFloat_init_pos [OF this] show ?thesis
    by (simp add: floor_log10_eq [OF assms])
qed

lemma Resistor_init_eval:
  assumes "10 powi k \<le> x" and "x < 10 powi (k + 1)"
  shows "Resistor_init exact (PFloat x) =
     (let v = rollover exact \<lparr>mantissa = x / 10 powi k, exponent = k\<rparr>
      in if exponent v \<notin> exponents then Inl range_error
         else Inr \<lparr>value_attr = for_mantissa (mantissas exact) v\<rparr>)"
  by (simp add: Resistor_init_def DecimalFloat_init_eval [OF assms] and_then_def)

text \<open>The loop body in closed form, for a positive target and standard resistors.\<close>

lemma loop_body_eq:
  assumes v: "0 < v" and ne: "rs \<noteq> []" and st: "list_all standard rs"
  shows "loop_body exact v tol rs =
     (let c = 1 / conductance rs
      in if \<bar>c - v\<bar> / v < tol then Inr None
         else if v = c then Inl (ValueError ''math domain error'')
         else and_then (Resistor_init exact (PFloat (1 / (1 / v - 1 / c)))) (\<lambda>r. Inr (Some r)))"
proof -
  from for_approxValue_value [OF ne st] obtain cv c where
    cv: "for_approxValue exact rs (PInt 0) = Inr cv" "py_float exact cv = Inr c" "0 < c"
        "1 / c = conductance rs" by blast
  have c: "1 / conductance rs = c" using cv(4) [symmetric] by simp
  let ?y = "1 / (1 / v - 1 / c)"
  have body: "loop_body exact v tol rs =
      (if \<bar>c - v\<bar> / v < tol then Inr None
       else and_then (Resistor_sub exact (PFloat v) cv) (\<lambda>difference.
            and_then (Resistor_init exact difference) (\<lambda>r. Inr (Some r))))"
    using v cv(1,2) by (simp add: loop_body_def and_then_def truediv_def)
  have sub: "and_then (Resistor_sub exact (PFloat v) cv) (\<lambda>difference.
            and_then (Resistor_init exact difference) (\<lambda>r. Inr (Some r))) =
       (if v = c then Inl (ValueError ''math domain error'')
        else and_then (Resistor_init exact (PFloat ?y)) (\<lambda>r. Inr (Some r)))"
  proof (cases "v = c")
    case True
    then have "Resistor_sub exact (PFloat v) cv = Inr (PInt 0)"
      using cv(2) by (simp add: Resistor_sub_def and_then_def)
    then show ?thesis using True by (simp add: and_then_def Resistor_init_int0)
  next
    case False
    then have G: "1 / v - 1 / c \<noteq> 0" using v cv(3) by (simp add: field_simps)
    have s: "Resistor_sub exact (PFloat v) cv =
        and_then (DecimalFloat_init exact (PFloat ?y)) (\<lambda>d. Inr (PDecimalFloat d))"
      using False v cv(2,3) G by (simp add: Resistor_sub_def and_then_def truediv_def)
    show ?thesis
    proof (cases "0 < ?y")
      case neg: False
      then show ?thesis
        using False by (simp add: s DecimalFloat_init_nonpos Resistor_init_nonpos and_then_def)
    next
      case True
      from DecimalFloat_roundtrip [OF True] obtain d where
        d: "DecimalFloat_init exact (PFloat ?y) = Inr d" "DecimalFloat_float exact d = ?y" by blast
      have "py_float exact (PDecimalFloat d) = Inr ?y" using d(2) by simp
      then have "Resistor_init exact (PDecimalFloat d) = Resistor_init exact (PFloat ?y)"
        by (rule Resistor_init_cong)
      then show ?thesis using False by (simp add: s d(1) and_then_def)
    qed
  qed
  show ?thesis unfolding body sub c by (simp add: Let_def)
qed

lemmas eval_simps = rollover_simp exponents_def mantissas_def standard_def
  conductance_def resistance_def DecimalFloat_float_def and_then_def Let_def

text \<open>The run on the target 1234 with tolerance 0.01, pass by pass.\<close>

lemma init_1234: "Resistor_init exact (PFloat 1234) = Inr \<lparr>value_attr = Some \<lparr>mantissa = 1.5, exponent = 3\<rparr>\<rparr>"
  by (simp add: Resistor_init_eval [of 3] eval_simps)

lemma pass1_1234:
  "loop_body exact 1234 (1 / 100) [\<lparr>value_attr = Some \<lparr>mantissa = 1.5, exponent = 3\<rparr>\<rparr>]
     = Inr (Some \<lparr>value_attr = Some \<lparr>mantissa = 8.2, exponent = 3\<rparr>\<rparr>)"
  by (subst loop_body_eq) (simp_all add: Resistor_init_eval [of 3] eval_simps)

lemma pass2_1234:
  "loop_body exact 1234 (1 / 100) [\<lparr>value_attr = Some \<lparr>mantissa = 1.5, exponent = 3\<rparr>\<rparr>,
       \<lparr>value_attr = Some \<lparr>mantissa = 8.2, exponent = 3\<rparr>\<rparr>]
     = Inr (Some \<lparr>value_attr = Some \<lparr>mantissa = 4.7, exponent = 4\<rparr>\<rparr>)"
  by (subst loop_body_eq) (simp_all add: Resistor_init_eval [of 4] eval_simps)

lemma pass3_1234:
  "loop_body exact 1234 (1 / 100) [\<lparr>value_attr = Some \<lparr>mantissa = 1.5, exponent = 3\<rparr>\<rparr>,
       \<lparr>value_attr = Some \<lparr>mantissa = 8.2, exponent = 3\<rparr>\<rparr>,
       \<lparr>value_attr = Some \<lparr>mantissa = 4.7, exponent = 4\<rparr>\<rparr>]
     = Inr None"
  by (subst loop_body_eq) (simp_all add: eval_simps)










text \<open>
  In exact arithmetic, \<^verbatim>\<open>DecimalFloat(v)\<close> of a positive \<open>v\<close> is normalised: the
  truncated logarithm, corrected by the decrement, is \<open>\<lfloor>log10 v\<rfloor>\<close>; the mantissa
  lies in \<open>[1, 10)\<close>; and mantissa times \<open>10 ^ exponent\<close> is \<open>v\<close>.
\<close>

lemma DecimalFloat_init_normalized:
  assumes "0 < v"
  shows "\<exists>d. DecimalFloat_init exact (PFloat v) = Inr d
           \<and> exponent d = \<lfloor>log 10 v\<rfloor>
           \<and> exponent d = (if 10 powi py_int (log 10 v) > v
                then py_int (log 10 v) - 1 else py_int (log 10 v))
           \<and> 1 \<le> mantissa d \<and> mantissa d < 10
           \<and> mantissa d * 10 powi exponent d = v
           \<and> DecimalFloat_float exact d = v"
  using decade_mantissa [OF assms] decade_exponent [OF assms]
  by (simp add: DecimalFloat_init_pos [OF assms] DecimalFloat_float_def)

lemma DecimalFloat_init_small:
  "DecimalFloat_init exact (PFloat (1 / 20)) = Inr \<lparr>mantissa = 5, exponent = - 2\<rparr>"
  by (simp add: DecimalFloat_init_eval [of "- 2"])

section \<open>The claims\<close>

text \<open>
  Rounding up, in exact arithmetic (the statement of C2 with the floats read as reals).
  For every real \<open>v\<close> with \<open>10 \<le> v \<le> 8.2e8\<close>, \<^verbatim>\<open>Resistor(v)\<close> succeeds; the
  numeric value of the resistor is at least \<open>v\<close>; its mantissa is one of the twelve
  table values, namely the smallest one that is \<open>\<ge>\<close> the mantissa computed by
  \<^verbatim>\<open>DecimalFloat(v)\<close>, or the first table value with the exponent incremented when the
  computed mantissa exceeds the last table value; and its exponent lies in \<open>[1, 8]\<close>.
\<close>

theorem Resistor_init_rounds_up:
  assumes "10 \<le> v" and "v \<le> 820000000"
  shows "\<exists>d0 r d. DecimalFloat_init exact (PFloat v) = Inr d0
           \<and> Resistor_init exact (PFloat v) = Inr r \<and> value_attr r = Some d
           \<and> Resistor_float exact r = Inr (DecimalFloat_float exact d) \<and> v \<le> DecimalFloat_float exact d
           \<and> mantissa d \<in> set (mantissas exact)
           \<and> 1 \<le> exponent d \<and> exponent d \<le> 8
           \<and> (if last (mantissas exact) < mantissa d0
                then mantissa d = hd (mantissas exact) \<and> exponent d = exponent d0 + 1
                else exponent d = exponent d0 \<and> mantissa d0 \<le> mantissa d
                   \<and> (\<forall>M\<in>set (mantissas exact). mantissa d0 \<le> M \<longrightarrow> mantissa d \<le> M))"
proof -
  have pos: "0 < v" using assms(1) by simp
  have "8.2 < v" using assms(1) by simp
  from Resistor_init_ok [OF this assms(2)] obtain M e where
    r: "Resistor_init exact (PFloat v) = Inr \<lparr>value_attr = Some \<lparr>mantissa = M, exponent = e\<rparr>\<rparr>"
       "M \<in> set (mantissas exact)" "e \<in> exponents" "v \<le> M * 10 powi e"
       "if 8.2 < v / 10 powi \<lfloor>log 10 v\<rfloor>
        then M = 1 \<and> e = \<lfloor>log 10 v\<rfloor> + 1
        else e = \<lfloor>log 10 v\<rfloor> \<and> v / 10 powi \<lfloor>log 10 v\<rfloor> \<le> M
           \<and> (\<forall>M'\<in>set (mantissas exact). v / 10 powi \<lfloor>log 10 v\<rfloor> \<le> M' \<longrightarrow> M \<le> M')"
    by blast
  let ?computed = "\<lparr>mantissa = v / 10 powi \<lfloor>log 10 v\<rfloor>, exponent = \<lfloor>log 10 v\<rfloor>\<rparr>"
  let ?d = "\<lparr>mantissa = M, exponent = e\<rparr>"
  let ?r = "\<lparr>value_attr = Some ?d\<rparr>"
  have "DecimalFloat_init exact (PFloat v) = Inr ?computed" by (rule DecimalFloat_init_pos [OF pos])
  moreover note r(1)
  moreover have "value_attr ?r = Some ?d" by simp
  moreover have "Resistor_float exact ?r = Inr (DecimalFloat_float exact ?d)"
    by (simp add: Resistor_float_def)
  moreover have "v \<le> DecimalFloat_float exact ?d" using r(4) by (simp add: DecimalFloat_float_def)
  moreover have "mantissa ?d \<in> set (mantissas exact)" using r(2) by simp
  moreover have "1 \<le> exponent ?d \<and> exponent ?d \<le> 8" using r(3) by (simp add: exponents_def)
  moreover have "if last (mantissas exact) < mantissa ?computed
                then mantissa ?d = hd (mantissas exact) \<and> exponent ?d = exponent ?computed + 1
                else exponent ?d = exponent ?computed \<and> mantissa ?computed \<le> mantissa ?d
                   \<and> (\<forall>M\<in>set (mantissas exact). mantissa ?computed \<le> M \<longrightarrow> mantissa ?d \<le> M)"
    using r(5) by (simp add: last_mantissas hd_mantissas)
  ultimately show ?thesis by blast
qed

theorem Resistor_init_rounds_up_witness:
  "(10::real) \<le> 1234 \<and> (1234::real) \<le> 820000000
   \<and> (\<exists>d0 r d. DecimalFloat_init exact (PFloat 1234) = Inr d0
           \<and> Resistor_init exact (PFloat 1234) = Inr r \<and> value_attr r = Some d
           \<and> Resistor_float exact r = Inr (DecimalFloat_float exact d) \<and> 1234 \<le> DecimalFloat_float exact d
           \<and> mantissa d \<in> set (mantissas exact)
           \<and> 1 \<le> exponent d \<and> exponent d \<le> 8
           \<and> (if last (mantissas exact) < mantissa d0
                then mantissa d = hd (mantissas exact) \<and> exponent d = exponent d0 + 1
                else exponent d = exponent d0 \<and> mantissa d0 \<le> mantissa d
                   \<and> (\<forall>M\<in>set (mantissas exact). mantissa d0 \<le> M \<longrightarrow> mantissa d \<le> M)))"
  using Resistor_init_rounds_up [of 1234] by simp

text \<open>
  Termination, in exact arithmetic (the statement of C1 with the floats read as reals).
  For every target in \<open>[10, 8.2e8]\<close> and every tolerance \<open>\<ge> 0\<close>,
  \<^verbatim>\<open>approximateResistor\<close> returns: the first resistor is built, the loop is left after
  finitely many passes, and it is left either at the tolerance test or because a
  \<^verbatim>\<open>ValueError\<close> raised in the body (building the next resistor) reached the handler.
  There is no infinite run (\<open>None\<close>) and no exception escapes.
\<close>

theorem approximateResistor_terminates:
  assumes "10 \<le> v" and "v \<le> 820000000" and "0 \<le> tolerance"
  shows "\<exists>r ext. Resistor_init exact (PFloat v) = Inr r
           \<and> approximateResistor exact (PFloat v) tolerance = Some (Inr (r # ext))
           \<and> (loop_body exact v tolerance (r # ext) = Inr None
               \<or> (\<exists>msg. loop_body exact v tolerance (r # ext) = Inl (ValueError msg)))"
proof -
  have pos: "0 < v" using assms(1) by simp
  from Resistor_init_cases [of v] assms(1,2) obtain r where
    r: "Resistor_init exact (PFloat v) = Inr r" "standard r"
    using Resistor_init_ok [of v] by auto
  have "list_all standard [r]" using r(2) by simp
  from while_True_terminates [OF pos _ this, of tolerance] obtain ext where
    "while_True exact v tolerance [r] = Some (Inr ([r] @ ext))"
    "loop_body exact v tolerance ([r] @ ext) = Inr None
       \<or> (\<exists>msg. loop_body exact v tolerance ([r] @ ext) = Inl (ValueError msg))"
    by auto
  then show ?thesis using r(1) by (simp add: approximateResistor_def)
qed

theorem approximateResistor_terminates_witness:
  "(10::real) \<le> 1234 \<and> (1234::real) \<le> 820000000 \<and> (0::real) \<le> 1 / 100
   \<and> (\<exists>r ext. Resistor_init exact (PFloat 1234) = Inr r
           \<and> approximateResistor exact (PFloat 1234) (1 / 100) = Some (Inr (r # ext))
           \<and> (loop_body exact 1234 (1 / 100) (r # ext) = Inr None
               \<or> (\<exists>msg. loop_body exact 1234 (1 / 100) (r # ext) = Inl (ValueError msg))))"
  using approximateResistor_terminates [of 1234 "1 / 100"] by simp







text \<open>
  C5. \<^verbatim>\<open>approximateResistor(1234, 0.01)\<close> returns the three resistors 1K5, 8K2 and 47K,
  so more than one, and the relative error of their parallel combination, as the loop
  computes it, is strictly less than 0.01.
\<close>

theorem approximateResistor_1234:
  "approximateResistor exact (PInt 1234) (1 / 100)
     = Some (Inr [\<lparr>value_attr = Some \<lparr>mantissa = 1.5, exponent = 3\<rparr>\<rparr>,
                  \<lparr>value_attr = Some \<lparr>mantissa = 8.2, exponent = 3\<rparr>\<rparr>,
                  \<lparr>value_attr = Some \<lparr>mantissa = 4.7, exponent = 4\<rparr>\<rparr>])
   \<and> 1 < length [\<lparr>value_attr = Some \<lparr>mantissa = 1.5, exponent = 3\<rparr>\<rparr>,
                  \<lparr>value_attr = Some \<lparr>mantissa = 8.2, exponent = 3\<rparr>\<rparr>,
                  \<lparr>value_attr = Some \<lparr>mantissa = 4.7, exponent = 4\<rparr>\<rparr>]
   \<and> (\<exists>currentValue c.
         for_approxValue exact [\<lparr>value_attr = Some \<lparr>mantissa = 1.5, exponent = 3\<rparr>\<rparr>,
                  \<lparr>value_attr = Some \<lparr>mantissa = 8.2, exponent = 3\<rparr>\<rparr>,
                  \<lparr>value_attr = Some \<lparr>mantissa = 4.7, exponent = 4\<rparr>\<rparr>] (PInt 0) = Inr currentValue
         \<and> py_float exact currentValue = Inr c \<and> \<bar>c - 1234\<bar> / 1234 < 1 / 100)"
proof -
  let ?out = "[\<lparr>value_attr = Some \<lparr>mantissa = 1.5, exponent = 3\<rparr>\<rparr>,
               \<lparr>value_attr = Some \<lparr>mantissa = 8.2, exponent = 3\<rparr>\<rparr>,
               \<lparr>value_attr = Some \<lparr>mantissa = 4.7, exponent = 4\<rparr>\<rparr>]"
  have run: "approximateResistor exact (PInt 1234) (1 / 100) = Some (Inr ?out)"
    using init_1234 pass1_1234 pass2_1234 pass3_1234
    by (simp add: approximateResistor_def while_True_append while_True_return)
  have "list_all standard ?out" by (simp add: eval_simps)
  from for_approxValue_value [OF _ this] obtain cv c where
    cv: "for_approxValue exact ?out (PInt 0) = Inr cv" "py_float exact cv = Inr c" "0 < c"
        "1 / c = conductance ?out" by blast
  have "c = 1 / conductance ?out" using cv(4) [symmetric] by simp
  then have "\<bar>c - 1234\<bar> / 1234 < 1 / 100" by (simp add: eval_simps)
  with run cv(1,2) show ?thesis by auto
qed







text \<open>
  C10. Whenever a pass of the loop gets the sentinel from \<^verbatim>\<open>Resistor.__sub__\<close> (the
  tolerance test failed and the call returned 0), the running combination equals the
  target and the tolerance is \<open>\<le> 0\<close>; \<^verbatim>\<open>Resistor(0)\<close> raises the domain error of
  the logarithm, which is a \<^verbatim>\<open>ValueError\<close> like the range error; the handler
  catches it and the loop returns the list as it stood, so the sentinel is never
  appended to it.
\<close>

theorem sentinel_caught:
  assumes "for_approxValue exact output (PInt 0) = Inr currentValue"
    and "py_float exact currentValue = Inr c"
    and "value \<noteq> 0"
    and "\<not> \<bar>c - value\<bar> / value < tolerance"
    and "Resistor_sub exact (PFloat value) currentValue = Inr (PInt 0)"
  shows "c = value \<and> tolerance \<le> 0
       \<and> Resistor_init exact (PInt 0) = Inl (ValueError ''math domain error'')
       \<and> (\<exists>msg. range_error = ValueError msg)
       \<and> loop_body exact value tolerance output = Inl (ValueError ''math domain error'')
       \<and> while_True exact value tolerance output = Some (Inr output)"
proof -
  have eq: "value = c"
  proof (rule ccontr)
    assume "value \<noteq> c"
    then have "Resistor_sub exact (PFloat value) currentValue \<noteq> Inr (PInt 0)"
      using assms(2)
      by (auto simp: Resistor_sub_def and_then_def truediv_def split: sum.splits if_splits)
    with assms(5) show False by simp
  qed
  have tol: "tolerance \<le> 0" using assms(4) eq by simp
  have body: "loop_body exact value tolerance output = Inl (ValueError ''math domain error'')"
    using assms by (simp add: loop_body_def and_then_def truediv_def Resistor_init_int0)
  from while_True_except [OF body] eq tol body show ?thesis
    by (simp add: Resistor_init_int0 range_error_def)
qed

theorem sentinel_caught_witness:
  "for_approxValue exact [\<lparr>value_attr = Some \<lparr>mantissa = 1, exponent = 3\<rparr>\<rparr>] (PInt 0)
     = Inr (PResistor \<lparr>value_attr = Some \<lparr>mantissa = 1, exponent = 3\<rparr>\<rparr>)
   \<and> py_float exact (PResistor \<lparr>value_attr = Some \<lparr>mantissa = 1, exponent = 3\<rparr>\<rparr>) = Inr 1000
   \<and> (1000::real) \<noteq> 0
   \<and> \<not> \<bar>1000 - 1000\<bar> / 1000 < (0::real)
   \<and> Resistor_sub exact (PFloat 1000) (PResistor \<lparr>value_attr = Some \<lparr>mantissa = 1, exponent = 3\<rparr>\<rparr>)
       = Inr (PInt 0)
   \<and> while_True exact 1000 0 [\<lparr>value_attr = Some \<lparr>mantissa = 1, exponent = 3\<rparr>\<rparr>]
       = Some (Inr [\<lparr>value_attr = Some \<lparr>mantissa = 1, exponent = 3\<rparr>\<rparr>])"
proof -
  let ?r = "\<lparr>value_attr = Some \<lparr>mantissa = 1, exponent = 3\<rparr>\<rparr>"
  have a: "for_approxValue exact [?r] (PInt 0) = Inr (PResistor ?r)"
    by (simp add: Resistor_add_def and_then_def)
  have b: "py_float exact (PResistor ?r) = Inr 1000"
    by (simp add: Resistor_float_def DecimalFloat_float_def)
  have c: "(1000::real) \<noteq> 0" by simp
  have d: "\<not> \<bar>1000 - 1000\<bar> / 1000 < (0::real)" by simp
  have e: "Resistor_sub exact (PFloat 1000) (PResistor ?r) = Inr (PInt 0)"
    by (simp add: Resistor_sub_def Resistor_float_def DecimalFloat_float_def and_then_def)
  from sentinel_caught [OF a b c d e] a b e show ?thesis by simp
qed


section \<open>Rounding to binary64\<close>

lemma pow2_powr: "(2::real) powr (of_int k) = 2 powi k"
  by (simp add: powr_real_of_int')

lemma floor_log2_iff:
  assumes "0 < x"
  shows "(\<lfloor>log 2 x\<rfloor> = k) = (2 powi k \<le> x \<and> x < 2 powi (k + 1))"
  using floor_log_eq_powr_iff [of x 2 k] assms
  unfolding pow2_powr by simp

lemma floor_log2_eq:
  assumes "2 powi k \<le> x" and "x < 2 powi (k + 1)"
  shows "\<lfloor>log 2 x\<rfloor> = k"
proof -
  have x: "0 < x" using assms(1) zero_less_power_int [of "2::real" k] by linarith
  show ?thesis using floor_log2_iff [OF x, of k] assms by simp
qed

lemma binary64_eval:
  assumes "2 powi k \<le> x" and "x < 2 powi (k + 1)"
  shows "binary64 x = of_int (round_half_even (x / 2 powi (k - 52))) * 2 powi (k - 52)"
proof -
  have x: "0 < x" using assms(1) zero_less_power_int [of "2::real" k] by linarith
  then show ?thesis by (simp add: binary64_def floor_log2_eq [OF assms])
qed

lemma binary64_zero [simp]: "binary64 0 = 0"
  by (simp add: binary64_def)

lemma binary64_minus: "binary64 (- x) = - binary64 x"
  by (simp add: binary64_def sgn_minus)

lemma round_half_even_of_int [simp]: "round_half_even (of_int n) = n"
  by (simp add: round_half_even_def)

lemma round_half_even_numeral [simp]: "round_half_even (numeral n) = numeral n"
  by (simp add: round_half_even_def)

lemma round_half_even_mono:
  assumes "q \<le> q'"
  shows "round_half_even q \<le> round_half_even q'"
proof (cases "\<lfloor>q\<rfloor> = \<lfloor>q'\<rfloor>")
  case True
  then show ?thesis using assms by (simp add: round_half_even_def)
next
  case False
  then have "\<lfloor>q\<rfloor> + 1 \<le> \<lfloor>q'\<rfloor>" using floor_mono [OF assms] by linarith
  moreover have "round_half_even q \<le> \<lfloor>q\<rfloor> + 1" by (simp add: round_half_even_def)
  moreover have "\<lfloor>q'\<rfloor> \<le> round_half_even q'" by (simp add: round_half_even_def)
  ultimately show ?thesis by linarith
qed

text \<open>A positive number and its rounding lie in the same closed binade.\<close>

lemma binary64_binade:
  assumes "2 powi k \<le> x" and "x < 2 powi (k + 1)"
  shows "2 powi k \<le> binary64 x" and "binary64 x \<le> 2 powi (k + 1)"
proof -
  let ?u = "(2::real) powi (k - 52)"
  have u: "0 < ?u" by simp
  have lo: "2 powi k = of_int (2 ^ 52) * ?u"
    by (simp add: power_int_diff)
  have hi: "2 powi (k + 1) = of_int (2 ^ 53) * ?u"
    by (simp add: power_int_diff power_int_add)
  have "of_int (2 ^ 52) \<le> x / ?u"
    using assms(1) u unfolding lo by (simp add: le_divide_eq)
  from round_half_even_mono [OF this]
  have "2 ^ 52 \<le> round_half_even (x / ?u)" by simp
  then have "(of_int (2 ^ 52) :: real) \<le> of_int (round_half_even (x / ?u))"
    by (simp only: of_int_le_iff)
  then have "of_int (2 ^ 52) * ?u \<le> of_int (round_half_even (x / ?u)) * ?u"
    using u by (simp only: mult_le_cancel_right_pos)
  then show "2 powi k \<le> binary64 x"
    unfolding binary64_eval [OF assms] lo .
  have "x / ?u \<le> of_int (2 ^ 53)"
    using assms(2) u unfolding hi by (simp add: divide_le_eq)
  from round_half_even_mono [OF this]
  have "round_half_even (x / ?u) \<le> 2 ^ 53" by simp
  then have "(of_int (round_half_even (x / ?u)) :: real) \<le> of_int (2 ^ 53)"
    by (simp only: of_int_le_iff)
  then have "of_int (round_half_even (x / ?u)) * ?u \<le> of_int (2 ^ 53) * ?u"
    using u by (simp only: mult_le_cancel_right_pos)
  then show "binary64 x \<le> 2 powi (k + 1)"
    unfolding binary64_eval [OF assms] hi .
qed

lemma binade_of:
  assumes "0 < x"
  shows "2 powi \<lfloor>log 2 x\<rfloor> \<le> x" and "x < 2 powi (\<lfloor>log 2 x\<rfloor> + 1)"
  using floor_log2_iff [OF assms, of "\<lfloor>log 2 x\<rfloor>"] by simp_all

lemma binary64_pos: "0 < x \<Longrightarrow> 0 < binary64 x"
  using binary64_binade(1) [OF binade_of [of x]] zero_less_power_int [of "2::real" "\<lfloor>log 2 x\<rfloor>"]
  by linarith

lemma binary64_mono_pos:
  assumes "0 < x" and "x \<le> y"
  shows "binary64 x \<le> binary64 y"
proof -
  have y: "0 < y" using assms by linarith
  let ?j = "\<lfloor>log 2 x\<rfloor>" and ?k = "\<lfloor>log 2 y\<rfloor>"
  have jk: "?j \<le> ?k"
    using assms y by (intro floor_mono) simp
  show ?thesis
  proof (cases "?j = ?k")
    case True
    let ?u = "(2::real) powi (?k - 52)"
    have u: "0 < ?u" by simp
    have "x / ?u \<le> y / ?u" using assms(2) u by (simp add: divide_right_mono)
    from round_half_even_mono [OF this]
    have "(of_int (round_half_even (x / ?u)) :: real) \<le> of_int (round_half_even (y / ?u))"
      by (simp only: of_int_le_iff)
    then have "of_int (round_half_even (x / ?u)) * ?u \<le> of_int (round_half_even (y / ?u)) * ?u"
      using u by (simp only: mult_le_cancel_right_pos)
    then show ?thesis
      using binary64_eval [OF binade_of [OF assms(1)]] binary64_eval [OF binade_of [OF y]] True
      by simp
  next
    case False
    then have "?j + 1 \<le> ?k" using jk by linarith
    then have "(2::real) powi (?j + 1) \<le> 2 powi ?k" by (intro power_int_increasing) simp_all
    moreover have "binary64 x \<le> 2 powi (?j + 1)"
      by (rule binary64_binade(2) [OF binade_of [OF assms(1)]])
    moreover have "2 powi ?k \<le> binary64 y"
      by (rule binary64_binade(1) [OF binade_of [OF y]])
    ultimately show ?thesis by linarith
  qed
qed

lemma binary64_mono:
  assumes "0 \<le> x" and "x \<le> y"
  shows "binary64 x \<le> binary64 y"
proof (cases "x = 0")
  case True
  show ?thesis
  proof (cases "y = 0")
    case True
    with \<open>x = 0\<close> show ?thesis by simp
  next
    case False
    then have "0 < y" using assms True by linarith
    from binary64_pos [OF this] True show ?thesis by simp
  qed
next
  case False
  then have "0 < x" using assms(1) by linarith
  then show ?thesis using assms(2) by (rule binary64_mono_pos)
qed

text \<open>
  The exponent that \<^verbatim>\<open>DecimalFloat.__init__\<close> computes for \<open>x \<ge> 1\<close>, under any rounding
  that is monotone and leaves the two neighbouring integers alone: the truncated
  logarithm may come out one too large, and then the power of ten exceeds \<open>x\<close> and the
  decrement corrects it.
\<close>

lemma exponent_guard:
  assumes mono: "\<And>a b. 0 \<le> a \<Longrightarrow> a \<le> b \<Longrightarrow> rnd a \<le> rnd b"
    and ints: "rnd (of_int k) = of_int k" "rnd (of_int (k + 1)) = of_int (k + 1)"
    and k: "0 \<le> k" and x: "10 powi k \<le> x" "x < 10 powi (k + 1)"
  shows "(if pow10 rnd (py_int (rnd (log 10 x))) > x
          then py_int (rnd (log 10 x)) - 1 else py_int (rnd (log 10 x))) = k"
proof -
  have pos: "0 < x" using x(1) zero_less_power_int [of "10::real" k] by linarith
  let ?L = "log 10 x"
  have fl: "\<lfloor>?L\<rfloor> = k" by (rule floor_log10_eq [OF x])
  then have L: "of_int k \<le> ?L" "?L \<le> of_int (k + 1)" by linarith+
  have k0: "(0::real) \<le> of_int k" using k by simp
  have lo: "of_int k \<le> rnd ?L" using mono [OF k0 L(1)] ints(1) by simp
  have "0 \<le> ?L" using k0 L(1) by linarith
  from mono [OF this L(2)] have hi: "rnd ?L \<le> of_int (k + 1)" using ints(2) by simp
  have nn: "0 \<le> rnd ?L" using lo k0 by linarith
  then have e0: "py_int (rnd ?L) = \<lfloor>rnd ?L\<rfloor>" by (simp add: py_int_def)
  have "k \<le> \<lfloor>rnd ?L\<rfloor>" using lo by (simp add: le_floor_iff)
  moreover have "\<lfloor>rnd ?L\<rfloor> \<le> k + 1" using hi by (simp add: floor_le_iff)
  ultimately consider "\<lfloor>rnd ?L\<rfloor> = k" | "\<lfloor>rnd ?L\<rfloor> = k + 1" by linarith
  then show ?thesis
  proof cases
    case 1
    then show ?thesis using x(1) k by (simp add: e0 pow10_def)
  next
    case 2
    then show ?thesis using x(2) k by (simp add: e0 pow10_def)
  qed
qed

lemma DecimalFloat_init_rounded:
  assumes mono: "\<And>a b. 0 \<le> a \<Longrightarrow> a \<le> b \<Longrightarrow> rnd a \<le> rnd b"
    and ints: "rnd (of_int k) = of_int k" "rnd (of_int (k + 1)) = of_int (k + 1)"
    and k: "0 \<le> k" and x: "10 powi k \<le> x" "x < 10 powi (k + 1)"
  shows "DecimalFloat_init rnd (PFloat x) =
         and_then (truediv rnd x (pow10_float rnd k)) (\<lambda>m. Inr \<lparr>mantissa = m, exponent = k\<rparr>)"
proof -
  have pos: "0 < x" using x(1) zero_less_power_int [of "10::real" k] by linarith
  note g = exponent_guard [OF mono ints k x]
  show ?thesis
    using pos
    by (simp add: DecimalFloat_init_def math_log10_def and_then_def Let_def g
        split del: if_split cong: sum.case_cong)
qed

lemma binary64_int_fixed:
  "binary64 0 = 0" "binary64 1 = 1" "binary64 2 = 2" "binary64 3 = 3"
  "binary64 22 = 22" "binary64 23 = 23"
  "binary64 100 = 100" "binary64 220 = 220" "binary64 820 = 820"
  "binary64 (10 ^ 22) = 10 ^ 22"
  by (simp_all add: binary64_eval [of 0] binary64_eval [of 1] binary64_eval [of 4]
      binary64_eval [of 6] binary64_eval [of 7] binary64_eval [of 9] binary64_eval [of 73])

lemma DecimalFloat_init_operand:
  "py_float rnd p = Inr y \<Longrightarrow> DecimalFloat_init rnd p = DecimalFloat_init rnd (PFloat y)"
  by (simp add: DecimalFloat_init_def)

lemma Resistor_init_operand:
  "py_float rnd p = Inr y \<Longrightarrow> Resistor_init rnd p = Resistor_init rnd (PFloat y)"
  by (simp add: Resistor_init_def DecimalFloat_init_operand [of rnd p y])

text \<open>\<^verbatim>\<open>DecimalFloat(x)\<close> in binary64, for \<open>x\<close> in the decade \<open>k \<ge> 0\<close>.\<close>

lemma DecimalFloat_init_binary64:
  assumes "binary64 (of_int k) = of_int k" and "binary64 (of_int (k + 1)) = of_int (k + 1)"
    and "0 \<le> k" and "10 powi k \<le> x" and "x < 10 powi (k + 1)"
  shows "DecimalFloat_init binary64 (PFloat x) =
         and_then (truediv binary64 x (pow10_float binary64 k))
           (\<lambda>m. Inr \<lparr>mantissa = m, exponent = k\<rparr>)"
  by (rule DecimalFloat_init_rounded [OF binary64_mono assms])

text \<open>The table of mantissas as doubles.\<close>

lemma mantissas_binary64:
  "mantissas binary64 =
     [1,
      5404319552844595 / 4503599627370496,
      3 / 2,
      8106479329266893 / 4503599627370496,
      2476979795053773 / 1125899906842624,
      3039929748475085 / 1125899906842624,
      3715469692580659 / 1125899906842624,
      8782019273372467 / 2251799813685248,
      5291729562160333 / 1125899906842624,
      3152519739159347 / 562949953421312,
      7656119366529843 / 1125899906842624,
      2308094809027379 / 281474976710656]"
  by (simp add: mantissas_def binary64_eval [of 0] binary64_eval [of 1] binary64_eval [of 2]
      binary64_eval [of 3] round_half_even_def)

lemma binary64_1e22: "binary64 10000000000000000000000 = 10000000000000000000000"
  by (simp add: binary64_eval [of 73] round_half_even_def)

lemmas binary64_simps = binary64_int_fixed binary64_1e22 pow10_float_def pow10_def truediv_def and_then_def
  round_half_even_def Let_def

section \<open>The program on doubles: three runs\<close>

text \<open>
  C6 says that \<^verbatim>\<open>DecimalFloat(v)\<close> has a mantissa in \<open>[1, 10)\<close> for every positive
  \<open>v\<close>. On doubles, \<^verbatim>\<open>DecimalFloat(1e23)\<close> has the mantissa 10.0: the double
  \<^verbatim>\<open>1e23\<close> is \<open>99999999999999991611392\<close>, its rounded logarithm is 23.0, the power
  \<open>10 ^ 23\<close> exceeds it and the decrement gives the exponent 22; the quotient by
  \<open>10 ^ 22\<close>, which is \<open>9.9999999999999991611392\<close>, is nearer to 10.0 than to the
  double below it.
\<close>

theorem DecimalFloat_init_1e23:
  "binary64 (10 ^ 23) = 99999999999999991611392
   \<and> DecimalFloat_init binary64 (PFloat 99999999999999991611392)
       = Inr \<lparr>mantissa = 10, exponent = 22\<rparr>"
proof -
  have a: "binary64 (10 ^ 23) = 99999999999999991611392"
    by (simp add: binary64_eval [of 76] round_half_even_def)
  have "DecimalFloat_init binary64 (PFloat 99999999999999991611392) =
         and_then (truediv binary64 99999999999999991611392 (pow10_float binary64 22))
           (\<lambda>m. Inr \<lparr>mantissa = m, exponent = 22\<rparr>)"
    by (rule DecimalFloat_init_binary64) (simp_all add: binary64_int_fixed)
  also have "\<dots> = Inr \<lparr>mantissa = 10, exponent = 22\<rparr>"
    by (simp add: binary64_simps binary64_eval [of 3])
  finally show ?thesis using a by simp
qed

text \<open>
  C2 says that the numeric value of \<^verbatim>\<open>Resistor(v)\<close> is at least \<open>v\<close>. On doubles,
  \<^verbatim>\<open>Resistor(820)\<close> stores the double \<^verbatim>\<open>8.2\<close>, which lies below 8.2, with the
  exponent 2, and \<^verbatim>\<open>float\<close> of it, \<^verbatim>\<open>8.2 * 10 ** 2\<close>, is the double
  \<^verbatim>\<open>819.9999999999999\<close>, which is less than 820.
\<close>

theorem Resistor_820_float:
  "Resistor_init binary64 (PInt 820)
     = Inr \<lparr>value_attr = Some \<lparr>mantissa = 2308094809027379 / 281474976710656, exponent = 2\<rparr>\<rparr>
   \<and> Resistor_float binary64
        \<lparr>value_attr = Some \<lparr>mantissa = 2308094809027379 / 281474976710656, exponent = 2\<rparr>\<rparr>
       = Inr (7212796278210559 / 8796093022208)
   \<and> (7212796278210559 / 8796093022208 :: real) < 820"
proof -
  have "py_float binary64 (PInt 820) = Inr 820" by (simp add: binary64_int_fixed)
  then have op: "Resistor_init binary64 (PInt 820) = Resistor_init binary64 (PFloat 820)"
    by (rule Resistor_init_operand)
  have "DecimalFloat_init binary64 (PFloat 820) =
         and_then (truediv binary64 820 (pow10_float binary64 2))
           (\<lambda>m. Inr \<lparr>mantissa = m, exponent = 2\<rparr>)"
    by (rule DecimalFloat_init_binary64) (simp_all add: binary64_int_fixed)
  also have "\<dots> = Inr \<lparr>mantissa = 2308094809027379 / 281474976710656, exponent = 2\<rparr>"
    by (simp add: binary64_simps binary64_eval [of 3])
  finally have d: "DecimalFloat_init binary64 (PFloat 820)
      = Inr \<lparr>mantissa = 2308094809027379 / 281474976710656, exponent = 2\<rparr>" .
  have a: "Resistor_init binary64 (PFloat 820)
     = Inr \<lparr>value_attr = Some \<lparr>mantissa = 2308094809027379 / 281474976710656, exponent = 2\<rparr>\<rparr>"
    by (simp add: Resistor_init_def d and_then_def rollover_def mantissas_binary64 exponents_def)
  have b: "Resistor_float binary64
        \<lparr>value_attr = Some \<lparr>mantissa = 2308094809027379 / 281474976710656, exponent = 2\<rparr>\<rparr>
       = Inr (7212796278210559 / 8796093022208)"
    by (simp add: Resistor_float_def DecimalFloat_float_def binary64_simps binary64_eval [of 9])
  show ?thesis unfolding op using a b by simp
qed

text \<open>
  C1 says that for a target in \<open>[10, 8.2e8]\<close> and a tolerance \<open>\<ge> 0\<close> the loop ends by
  the tolerance test or by a caught \<^verbatim>\<open>ValueError\<close>. On doubles,
  \<^verbatim>\<open>approximateResistor(220, 0)\<close> ends with a \<^verbatim>\<open>ZeroDivisionError\<close> that the handler
  does not catch: the first resistor is the double \<^verbatim>\<open>2.2\<close> with exponent 2;
  \<^verbatim>\<open>float\<close> of it is \<^verbatim>\<open>220.00000000000003\<close>, not the target, so
  \<^verbatim>\<open>Resistor.__sub__\<close> does not return its sentinel; the reciprocals of the two are the
  same double, their difference is 0.0, and \<^verbatim>\<open>1 / 0.0\<close> raises.
\<close>

theorem approximateResistor_220_0:
  "approximateResistor binary64 (PInt 220) 0 = Some (Inl ZeroDivisionError)"
proof -
  let ?r = "\<lparr>value_attr = Some \<lparr>mantissa = 2476979795053773 / 1125899906842624, exponent = 2\<rparr>\<rparr>"
  let ?c = "7740561859543041 / 35184372088832 :: real"
  have "DecimalFloat_init binary64 (PFloat 220) =
         and_then (truediv binary64 220 (pow10_float binary64 2))
           (\<lambda>m. Inr \<lparr>mantissa = m, exponent = 2\<rparr>)"
    by (rule DecimalFloat_init_binary64) (simp_all add: binary64_int_fixed)
  also have "\<dots> = Inr \<lparr>mantissa = 2476979795053773 / 1125899906842624, exponent = 2\<rparr>"
    by (simp add: binary64_simps binary64_eval [of 1])
  finally have d: "DecimalFloat_init binary64 (PFloat 220)
      = Inr \<lparr>mantissa = 2476979795053773 / 1125899906842624, exponent = 2\<rparr>" .
  have init: "Resistor_init binary64 (PFloat 220) = Inr ?r"
    by (simp add: Resistor_init_def d and_then_def rollover_def mantissas_binary64 exponents_def)
  have fl: "Resistor_float binary64 ?r = Inr ?c"
    by (simp add: Resistor_float_def DecimalFloat_float_def binary64_simps binary64_eval [of 7])
  have cur: "for_approxValue binary64 [?r] (PInt 0) = Inr (PResistor ?r)"
    by (simp add: Resistor_add_def and_then_def)
  have "0 < \<bar>binary64 (?c - 220)\<bar>"
    using binary64_pos [of "?c - 220"] by simp
  then have "0 < binary64 (\<bar>binary64 (?c - 220)\<bar> / 220)"
    by (intro binary64_pos) simp
  then have test: "\<not> binary64 (\<bar>binary64 (?c - 220)\<bar> / 220) < 0" by simp
  have ia: "binary64 (1 / 220) = 2620276146833743 / 576460752303423488"
    by (simp add: binary64_eval [of "- 8"] round_half_even_def)
  have ib: "binary64 (35184372088832 / 7740561859543041)
      = 2620276146833743 / 576460752303423488"
    by (simp add: binary64_eval [of "- 8"] round_half_even_def)
  have sub: "Resistor_sub binary64 (PFloat 220) (PResistor ?r) = Inl ZeroDivisionError"
    by (simp add: Resistor_sub_def fl and_then_def truediv_def ia ib)
  have body: "loop_body binary64 220 0 [?r] = Inl ZeroDivisionError"
    unfolding loop_body_def cur using test by (simp add: fl sub and_then_def truediv_def)
  have "while_True binary64 220 0 [?r] = Some (Inl ZeroDivisionError)"
    by (subst while_True.simps) (simp add: body)
  then show ?thesis by (simp add: approximateResistor_def binary64_int_fixed init)
qed

end
